theory Spec2Isabelle
  imports Complex_Main "HOL-Library.Sublist" "HOL-Library.Char_ord" "HOL-Library.List_Lexorder"
    "HOL-Library.Multiset"
begin

section \<open>The image pre-processing pipeline of imagePreProcessing.py\<close>

subsection \<open>The library boundary\<close>

text \<open>
  The pipeline calls PIL, numpy and os for everything that touches a file. Those calls are
  taken as parameters, one field per call, over an arbitrary type \<open>'img\<close> of opened images.
  A call that decodes may raise, and what it raises matters, since the source catches
  \<open>IOError\<close> in one place and \<open>ValueError\<close> in another and nothing else anywhere:
  \<^item> \<open>Image_open p\<close> is \<open>Image.open(p)\<close>, which reads the header only;
  \<^item> \<open>getsize p\<close> is \<open>os.path.getsize(p)\<close>, asked only for a file that \<open>Image.open\<close> has
    just opened;
  \<^item> \<open>stat_var im\<close> is \<open>ImageStat.Stat(im).var\<close>, one value per band; it decodes the pixels,
    so a truncated file raises here (the floats are read as the rationals they denote
    and summed exactly);
  \<^item> \<open>img_size im\<close> is \<open>im.size\<close>, the pair (width, height);
  \<^item> \<open>array_shape im\<close> is \<open>np.array(im).shape\<close>;
  \<^item> \<open>difference_getbbox im1 im2\<close> is \<open>ImageChops.difference(im1, im2).getbbox()\<close>: a
    bounding box, \<open>None\<close>, or an exception.
  The exceptions are told apart as far as the source tells them apart: \<open>IOError\<close> (the
  same class as \<open>OSError\<close>, with its subclasses), \<open>ValueError\<close> (with its subclasses) and any
  other exception. The file system does not change during a run, so each field is a
  function.
\<close>

datatype exn = IOError | ValueError | OtherError

type_synonym bbox = "nat \<times> nat \<times> nat \<times> nat"

record 'img lib =
  Image_open :: "string \<Rightarrow> exn + 'img"
  getsize :: "string \<Rightarrow> nat"
  stat_var :: "'img \<Rightarrow> exn + rat list"
  img_size :: "'img \<Rightarrow> nat \<times> nat"
  array_shape :: "'img \<Rightarrow> exn + nat list"
  difference_getbbox :: "'img \<Rightarrow> 'img \<Rightarrow> exn + bbox option"

subsection \<open>Strings: \<open>str.lower\<close> and \<open>str.endswith\<close>\<close>

text \<open>
  \<open>lower\<close> maps the ASCII capitals to their small letters and leaves every other character
  alone; the suffixes tested below are ASCII, so this is all of \<open>str.lower\<close> that they can see.
\<close>

definition lower_char :: "char \<Rightarrow> char" where
  "lower_char c =
     (case map_of (zip ''ABCDEFGHIJKLMNOPQRSTUVWXYZ'' ''abcdefghijklmnopqrstuvwxyz'') c of
        None \<Rightarrow> c
      | Some d \<Rightarrow> d)"

definition lower :: "string \<Rightarrow> string" where
  "lower s = map lower_char s"

definition endswith :: "string \<Rightarrow> string \<Rightarrow> bool" where
  "endswith s suf \<longleftrightarrow>
     length suf \<le> length s \<and> drop (length s - length suf) s = suf"

text \<open>\<open>s.endswith(t)\<close> for a tuple \<open>t\<close>: some member of the tuple is a suffix.\<close>

definition endswith_any :: "string \<Rightarrow> string list \<Rightarrow> bool" where
  "endswith_any s sufs \<longleftrightarrow> list_ex (endswith s) sufs"

subsection \<open>\<open>validate_file\<close>\<close>

text \<open>
  What \<open>is_equal\<close> hands back: the bounding box of the difference, \<open>None\<close>, or the number 6
  when the comparison raised \<open>ValueError\<close> (lines 130 to 135). Any other exception is not
  caught and leaves \<open>is_equal\<close>.
\<close>

datatype cmp_value = PyNone | PyBox bbox | PyInt int

definition is_equal :: "'img lib \<Rightarrow> 'img \<Rightarrow> 'img \<Rightarrow> exn + cmp_value" where
  "is_equal e im1 im2 =
     (case difference_getbbox e im1 im2 of
        Inr None \<Rightarrow> Inr PyNone
      | Inr (Some b) \<Rightarrow> Inr (PyBox b)
      | Inl ValueError \<Rightarrow> Inr (PyInt 6)
      | Inl x \<Rightarrow> Inl x)"

text \<open>
  The loop of lines 138 to 145 over \<open>checked_files\<close>, entered with \<open>nr_of_error = 0\<close>. An entry
  is a pair of a file name and its error number. The image of an entry is opened again
  outside any \<open>try\<close>, so whatever is raised there leaves \<open>validate_file\<close>.
\<close>

fun compare_loop :: "'img lib \<Rightarrow> 'img \<Rightarrow> (string \<times> int) list \<Rightarrow> exn + int" where
  "compare_loop e im1 [] = Inr 0"
| "compare_loop e im1 (image0 # rest) =
     (if snd image0 \<noteq> 3 \<and> snd image0 \<noteq> 1 then
        (case Image_open e (fst image0) of
           Inl x \<Rightarrow> Inl x
         | Inr im2 \<Rightarrow>
             (case is_equal e im1 im2 of
                Inl x \<Rightarrow> Inl x
              | Inr res \<Rightarrow> if res = PyNone then Inr 6 else compare_loop e im1 rest))
      else compare_loop e im1 rest)"

definition allowed_extensions :: "string list" where
  "allowed_extensions = [''.jpg'', ''.JPG'', ''.JPEG'', ''.jpeg'']"

text \<open>
  \<open>validate_file\<close>, rule by rule as lines 79 to 147 have them. The file is opened four times;
  only the first \<open>Image.open\<close> is inside a \<open>try\<close>, and that \<open>try\<close> catches \<open>IOError\<close> alone.
  The array of line 114 is built before the test of line 115, whatever the size is.
\<close>

definition validate_file ::
  "'img lib \<Rightarrow> string \<Rightarrow> string \<Rightarrow> (string \<times> int) list \<Rightarrow> exn + int" where
  "validate_file e file_path output_dir checked_files =
     (case Image_open e file_path of
        Inl IOError \<Rightarrow> Inr 3
      | Inl x \<Rightarrow> Inl x
      | Inr im0 \<Rightarrow>
          if \<not> endswith_any (lower file_path) allowed_extensions then Inr 1
          else if \<not> (getsize e file_path > 10000) then Inr 2
          else
            (case Image_open e file_path of
               Inl x \<Rightarrow> Inl x
             | Inr img \<Rightarrow>
                 (case stat_var e img of
                    Inl x \<Rightarrow> Inl x
                  | Inr var \<Rightarrow>
                      if \<not> (sum_list var > 0) then Inr 4
                      else
                        (case Image_open e file_path of
                           Inl x \<Rightarrow> Inl x
                         | Inr im \<Rightarrow>
                             let (width, height) = img_size e im;
                                 file_has_dims = (width \<ge> 100 \<and> height \<ge> 100)
                             in (case array_shape e img of
                                   Inl x \<Rightarrow> Inl x
                                 | Inr shape \<Rightarrow>
                                     if \<not> file_has_dims \<or> length shape > 2 then Inr 5
                                     else
                                       (case Image_open e file_path of
                                          Inl x \<Rightarrow> Inl x
                                        | Inr im1 \<Rightarrow>
                                            compare_loop e im1 checked_files))))))"

subsection \<open>\<open>check_files\<close> and \<open>separate_files\<close>\<close>

text \<open>
  The loop of \<open>check_files\<close>: every file is validated against the list built so far and then
  appended to it with its error number, whatever that number is.
\<close>

fun check_loop ::
  "'img lib \<Rightarrow> string \<Rightarrow> string list \<Rightarrow> (string \<times> int) list \<Rightarrow> exn + (string \<times> int) list" where
  "check_loop e output_dir [] checked_files = Inr checked_files"
| "check_loop e output_dir (file_name # rest) checked_files =
     (case validate_file e file_name output_dir checked_files of
        Inl x \<Rightarrow> Inl x
      | Inr nr_of_error \<Rightarrow>
          check_loop e output_dir rest (checked_files @ [(file_name, nr_of_error)]))"

definition check_files ::
  "'img lib \<Rightarrow> string list \<Rightarrow> string \<Rightarrow> exn + (string \<times> int) list" where
  "check_files e sorted_files output_dir = check_loop e output_dir sorted_files []"

fun separate_loop ::
  "(string \<times> int) list \<Rightarrow> (string \<times> int) list \<Rightarrow> (string \<times> int) list
     \<Rightarrow> (string \<times> int) list \<times> (string \<times> int) list" where
  "separate_loop [] valid_files invalid_files = (valid_files, invalid_files)"
| "separate_loop (checked # rest) valid_files invalid_files =
     (if snd checked = 0 then separate_loop rest (valid_files @ [checked]) invalid_files
      else separate_loop rest valid_files (invalid_files @ [checked]))"

definition separate_files ::
  "(string \<times> int) list \<Rightarrow> (string \<times> int) list \<times> (string \<times> int) list" where
  "separate_files checked_files = separate_loop checked_files [] []"

subsection \<open>Path strings: \<open>os.path\<close> and \<open>pathlib\<close> on POSIX\<close>

text \<open>
  The functions of Python's \<open>posixpath\<close> and \<open>pathlib\<close> that the source calls, written after
  the standard library's own code for \<open>str\<close> arguments.
\<close>

definition startswith :: "string \<Rightarrow> string \<Rightarrow> bool" where
  "startswith s pre \<longleftrightarrow> take (length pre) s = pre"

text \<open>\<open>s.split('/')\<close>: the pieces between the separators, at least one piece.\<close>

fun str_split :: "string \<Rightarrow> string list" where
  "str_split [] = [[]]"
| "str_split (c # cs) =
     (if c = CHR ''/'' then [] # str_split cs
      else (case str_split cs of [] \<Rightarrow> [[c]] | w # ws \<Rightarrow> (c # w) # ws))"

text \<open>\<open>'/'.join(parts)\<close>.\<close>

fun str_join :: "string list \<Rightarrow> string" where
  "str_join [] = []"
| "str_join [x] = x"
| "str_join (x # y # ys) = x @ ''/'' @ str_join (y # ys)"

definition os_path_isabs :: "string \<Rightarrow> bool" where
  "os_path_isabs s \<longleftrightarrow> startswith s ''/''"

definition os_path_join :: "string \<Rightarrow> string \<Rightarrow> string" where
  "os_path_join a b =
     (if startswith b ''/'' then b
      else if a = [] \<or> endswith a ''/'' then a @ b
      else a @ ''/'' @ b)"

text \<open>
  \<open>os.path.split\<close>: the head up to the last separator, with its trailing separators removed
  unless it consists of separators only, and the tail after it.
\<close>

definition rstrip_sep :: "string \<Rightarrow> string" where
  "rstrip_sep s = rev (dropWhile (\<lambda>c. c = CHR ''/'') (rev s))"

definition os_path_split :: "string \<Rightarrow> string \<times> string" where
  "os_path_split p =
     (let tail = rev (takeWhile (\<lambda>c. c \<noteq> CHR ''/'') (rev p));
          head = take (length p - length tail) p
      in (if head \<noteq> [] \<and> head \<noteq> replicate (length head) (CHR ''/'') then rstrip_sep head
          else head, tail))"

fun normpath_loop :: "nat \<Rightarrow> string list \<Rightarrow> string list \<Rightarrow> string list" where
  "normpath_loop initial_slashes [] new_comps = new_comps"
| "normpath_loop initial_slashes (c # comps) new_comps =
     (if c = [] \<or> c = ''.'' then normpath_loop initial_slashes comps new_comps
      else if c \<noteq> ''..'' \<or> (initial_slashes = 0 \<and> new_comps = [])
                \<or> (new_comps \<noteq> [] \<and> last new_comps = ''..'')
        then normpath_loop initial_slashes comps (new_comps @ [c])
      else if new_comps \<noteq> [] then normpath_loop initial_slashes comps (butlast new_comps)
      else normpath_loop initial_slashes comps new_comps)"

definition os_path_normpath :: "string \<Rightarrow> string" where
  "os_path_normpath path =
     (if path = [] then ''.''
      else
        let initial_slashes =
              (if startswith path ''/''
               then (if startswith path ''//'' \<and> \<not> startswith path ''///'' then 2 else 1)
               else (0::nat));
            comps = normpath_loop initial_slashes (str_split path) [];
            joined = str_join comps;
            result = (if initial_slashes \<noteq> 0
                      then replicate initial_slashes (CHR ''/'') @ joined else joined)
        in if result = [] then ''.'' else result)"

text \<open>\<open>os.path.abspath\<close>; \<open>cwd\<close> is what \<open>os.getcwd()\<close> returns.\<close>

definition os_path_abspath :: "string \<Rightarrow> string \<Rightarrow> string" where
  "os_path_abspath cwd path =
     os_path_normpath (if \<not> os_path_isabs path then os_path_join cwd path else path)"

text \<open>
  \<open>pathlib\<close>: a path string is parsed into its root (\<open>''\<close>, \<open>'/'\<close> or \<open>'//'\<close>) and its parts, the
  root first when there is one; there is no drive on POSIX.
\<close>

definition splitroot :: "string \<Rightarrow> string \<times> string" where
  "splitroot part =
     (if part \<noteq> [] \<and> hd part = CHR ''/'' then
        let stripped_part = dropWhile (\<lambda>c. c = CHR ''/'') part
        in if length part - length stripped_part = 2 then (''//'', stripped_part)
           else (''/'', stripped_part)
      else ([], part))"

definition parse_parts :: "string \<Rightarrow> string \<times> string list" where
  "parse_parts part =
     (if part = [] then ([], [])
      else
        let (rootp, rel) = splitroot part;
            parsed = filter (\<lambda>x. x \<noteq> [] \<and> x \<noteq> ''.'') (str_split rel)
        in (rootp, (if rootp \<noteq> [] then [rootp] else []) @ parsed))"

definition format_parsed_parts :: "string \<Rightarrow> string list \<Rightarrow> string" where
  "format_parsed_parts rootp parts =
     (let s = (if rootp \<noteq> [] then rootp @ str_join (tl parts) else str_join parts)
      in if s = [] then ''.'' else s)"

text \<open>
  \<open>str(Path(self).relative_to(other))\<close>: \<open>ValueError\<close> unless the parts of \<open>other\<close>, with the
  drive and the root counted as parts of their own, begin the parts of \<open>self\<close>.
\<close>

definition relative_to :: "string \<Rightarrow> string \<Rightarrow> exn + string" where
  "relative_to self other =
     (let (rootp, parts) = parse_parts self;
          abs_parts = (if rootp \<noteq> [] then [[], rootp] @ tl parts else parts);
          (to_rootp, to_parts) = parse_parts other;
          to_abs_parts = (if to_rootp \<noteq> [] then [[], to_rootp] @ tl to_parts else to_parts);
          n = length to_abs_parts
      in if (if n = 0 then rootp \<noteq> [] else take n abs_parts \<noteq> to_abs_parts)
         then Inl ValueError
         else Inr (format_parsed_parts (if n = 1 then rootp else []) (drop n abs_parts)))"

subsection \<open>\<open>get_files\<close>: the directory scan\<close>

text \<open>
  The directory that \<open>input_dir\<close> names is given by its listing, a list of nodes: a file with
  its name, or a directory with its name and its own listing.
\<close>

datatype node = File string | Dir string "node list"

fun node_name :: "node \<Rightarrow> string" where
  "node_name (File x) = x"
| "node_name (Dir x kids) = x"

text \<open>
  \<open>glob.glob(pathname, recursive=True)\<close> of Python's \<open>glob\<close> module, for the one shape of
  pattern the source builds, \<open>os.path.join(input_dir, '**/*.*')\<close>, and for an \<open>input_dir\<close>
  that names the directory literally: \<open>glob\<close> reads the characters \<open>*\<close>, \<open>?\<close> and \<open>[\<close> in
  \<open>input_dir\<close> as a pattern of its own (\<open>has_magic\<close>), and for such an \<open>input_dir\<close> this is not
  what \<open>glob\<close> does. \<open>ishidden\<close>, \<open>glob_join\<close>, \<open>rlistdir\<close> and \<open>glob1\<close> are the module's
  \<open>_ishidden\<close>, \<open>_join\<close>, \<open>_rlistdir\<close> (asked for directories only) and \<open>_glob1\<close>;
  \<open>fnmatch\<close> of a name against \<open>*.*\<close> holds when the name contains a dot.
\<close>

definition has_magic :: "string \<Rightarrow> bool" where
  "has_magic s \<longleftrightarrow> list_ex (\<lambda>c. c \<in> set ''*?['') s"

definition ishidden :: "string \<Rightarrow> bool" where
  "ishidden path \<longleftrightarrow> (case path of [] \<Rightarrow> False | c # cs \<Rightarrow> c = CHR ''.'')"

definition glob_join :: "string \<Rightarrow> string \<Rightarrow> string" where
  "glob_join dirname basename =
     (if dirname = [] \<or> basename = [] then (if dirname \<noteq> [] then dirname else basename)
      else os_path_join dirname basename)"

text \<open>
  Every directory below a listing that no hidden directory leads to, by its path relative
  to the listing, with its own listing.
\<close>

fun rlistdir :: "node list \<Rightarrow> (string \<times> node list) list" where
  "rlistdir [] = []"
| "rlistdir (File x # names) = rlistdir names"
| "rlistdir (Dir x kids # names) =
     (if ishidden x then []
      else (x, kids) # map (\<lambda>(y, ks). (glob_join x y, ks)) (rlistdir kids))
     @ rlistdir names"

definition fnmatch_star_dot_star :: "string \<Rightarrow> bool" where
  "fnmatch_star_dot_star name \<longleftrightarrow> CHR ''.'' \<in> set name"

definition glob1 :: "node list \<Rightarrow> string list" where
  "glob1 listing =
     filter fnmatch_star_dot_star (filter (\<lambda>x. \<not> ishidden x) (map node_name listing))"

definition glob_recursive :: "node list \<Rightarrow> string \<Rightarrow> string list" where
  "glob_recursive listing pathname =
     (let (dirname, basename) = os_path_split pathname;
          (dirname2, basename2) = os_path_split dirname;
          dirs = map (\<lambda>(y, ks). (os_path_join dirname2 y, ks)) (([], listing) # rlistdir listing)
      in concat (map (\<lambda>(d, ks). map (os_path_join d) (glob1 ks)) dirs))"

text \<open>\<open>get_files\<close>, lines 43 to 47; \<open>sorted\<close> orders strings lexicographically by character code.\<close>

definition get_files :: "node list \<Rightarrow> string \<Rightarrow> string list" where
  "get_files listing input_dir =
     sort (glob_recursive listing (os_path_join input_dir ''**/*.*''))"

subsection \<open>\<open>copy_valid_files\<close> and \<open>write_log_file\<close>\<close>

text \<open>Decimal numerals: \<open>str(n)\<close>, and the format \<open>06d\<close> that pads with zeros to six digits.\<close>

definition digit_char :: "nat \<Rightarrow> char" where
  "digit_char d = ''0123456789'' ! d"

fun str_nat :: "nat \<Rightarrow> string" where
  "str_nat n = (if n < 10 then [digit_char n] else str_nat (n div 10) @ [digit_char (n mod 10)])"

declare str_nat.simps [simp del]

definition str_int :: "int \<Rightarrow> string" where
  "str_int i = (if i < 0 then CHR ''-'' # str_nat (nat (- i)) else str_nat (nat i))"

definition format_06d :: "nat \<Rightarrow> string" where
  "format_06d n = replicate (6 - length (str_nat n)) (CHR ''0'') @ str_nat n"

text \<open>
  \<open>copy_valid_files\<close> is modelled by the calls \<open>shutil.copyfile(source, destination)\<close> it makes,
  in order; \<open>i\<close> is the counter of \<open>enumerate\<close>.
\<close>

fun copy_loop :: "nat \<Rightarrow> (string \<times> int) list \<Rightarrow> string \<Rightarrow> (string \<times> string) list" where
  "copy_loop i [] output_dir = []"
| "copy_loop i (elem # rest) output_dir =
     (fst elem, os_path_join output_dir (format_06d (i + 1) @ ''.jpg''))
       # copy_loop (i + 1) rest output_dir"

definition copy_valid_files :: "(string \<times> int) list \<Rightarrow> string \<Rightarrow> (string \<times> string) list" where
  "copy_valid_files valid_files output_dir = copy_loop 0 valid_files output_dir"

text \<open>
  \<open>write_log_file\<close> opens the log file for writing, which empties it, and writes one line per
  invalid file. The result is the text written and the exception that ended the loop, if any.
\<close>

fun write_loop ::
  "string \<Rightarrow> (string \<times> int) list \<Rightarrow> string \<Rightarrow> string \<Rightarrow> string \<times> exn option" where
  "write_loop cwd [] input_dir f = (f, None)"
| "write_loop cwd (file_name # rest) input_dir f =
     (case relative_to (fst file_name) (os_path_abspath cwd input_dir) of
        Inl x \<Rightarrow> (f, Some x)
      | Inr realtive_path \<Rightarrow>
          write_loop cwd rest input_dir
            (f @ realtive_path @ '';'' @ str_int (snd file_name) @ [CHR 0x0A]))"

definition write_log_file ::
  "string \<Rightarrow> string \<Rightarrow> (string \<times> int) list \<Rightarrow> string \<Rightarrow> string \<times> exn option" where
  "write_log_file cwd logfile invalid_files input_dir = write_loop cwd invalid_files input_dir []"

subsection \<open>\<open>pre_processsing\<close>\<close>

text \<open>
  A run leaves behind the copies made, the text of the log file (\<open>None\<close> when the run ended
  before the log file was opened) and either the number returned or the exception raised.
\<close>

record run =
  copied :: "(string \<times> string) list"
  logged :: "string option"
  returned :: "exn + nat"

definition pre_processsing ::
  "'img lib \<Rightarrow> node list \<Rightarrow> string \<Rightarrow> string \<Rightarrow> string \<Rightarrow> string \<Rightarrow> run" where
  "pre_processsing e listing cwd input_dir output_dir logfile =
     (let sorted_files = get_files listing input_dir
      in case check_files e sorted_files output_dir of
           Inl x \<Rightarrow> \<lparr>copied = [], logged = None, returned = Inl x\<rparr>
         | Inr checked_files \<Rightarrow>
             let (valid_files, invalid_files) = separate_files checked_files;
                 copies = copy_valid_files valid_files output_dir;
                 (text, raised) = write_log_file cwd logfile invalid_files input_dir
             in \<lparr>copied = copies, logged = Some text,
                 returned = (case raised of Some x \<Rightarrow> Inl x | None \<Rightarrow> Inr (length valid_files))\<rparr>)"

section \<open>The rules of the validator, one by one\<close>

text \<open>
  An entry of \<open>checked_files\<close> takes part in the duplicate check when its error number is
  neither 3 nor 1 (line 140); the check opens its file again, so the loop runs to its end
  only if those files open.
\<close>

definition in_pool :: "string \<times> int \<Rightarrow> bool" where
  "in_pool c \<longleftrightarrow> snd c \<noteq> 3 \<and> snd c \<noteq> 1"

definition pool_opens :: "'img lib \<Rightarrow> (string \<times> int) list \<Rightarrow> bool" where
  "pool_opens e cs \<longleftrightarrow> list_all (\<lambda>c. in_pool c \<longrightarrow> \<not> isl (Image_open e (fst c))) cs"

text \<open>
  The six rules as predicates on a path, in the words of the specification. A rule that
  needs a library call counts as failed when the call raises.
\<close>

definition is_decodable :: "'img lib \<Rightarrow> string \<Rightarrow> bool" where
  "is_decodable e p \<longleftrightarrow> \<not> isl (Image_open e p)"

definition has_allowed_extension :: "string \<Rightarrow> bool" where
  "has_allowed_extension p \<longleftrightarrow> endswith_any (lower p) allowed_extensions"

definition has_allowed_size :: "'img lib \<Rightarrow> string \<Rightarrow> bool" where
  "has_allowed_size e p \<longleftrightarrow> getsize e p > 10000"

definition has_variance :: "'img lib \<Rightarrow> string \<Rightarrow> bool" where
  "has_variance e p \<longleftrightarrow>
     (case Image_open e p of
        Inl x \<Rightarrow> False
      | Inr img \<Rightarrow> (case stat_var e img of Inl x \<Rightarrow> False | Inr var \<Rightarrow> sum_list var > 0))"

definition has_dims_and_shape :: "'img lib \<Rightarrow> string \<Rightarrow> bool" where
  "has_dims_and_shape e p \<longleftrightarrow>
     (case Image_open e p of
        Inl x \<Rightarrow> False
      | Inr im \<Rightarrow> fst (img_size e im) \<ge> 100 \<and> snd (img_size e im) \<ge> 100
                    \<and> (case array_shape e im of
                          Inl x \<Rightarrow> False
                        | Inr shape \<Rightarrow> length shape \<le> 2))"

definition equals_entry :: "'img lib \<Rightarrow> string \<Rightarrow> string \<times> int \<Rightarrow> bool" where
  "equals_entry e p c \<longleftrightarrow>
     (case Image_open e p of
        Inl x \<Rightarrow> False
      | Inr im1 \<Rightarrow>
          (case Image_open e (fst c) of
             Inl x \<Rightarrow> False
           | Inr im2 \<Rightarrow> is_equal e im1 im2 = Inr PyNone))"

definition has_duplicate :: "'img lib \<Rightarrow> string \<Rightarrow> (string \<times> int) list \<Rightarrow> bool" where
  "has_duplicate e p cs \<longleftrightarrow> list_ex (\<lambda>c. in_pool c \<and> equals_entry e p c) cs"

text \<open>
  The rules in the order of the specification, each with its code and whether the file
  passes it, and the code of the first rule that fails (0 when none does).
\<close>

definition rule_checks :: "'img lib \<Rightarrow> string \<Rightarrow> (string \<times> int) list \<Rightarrow> (int \<times> bool) list" where
  "rule_checks e p cs =
     [(3, is_decodable e p),
      (1, has_allowed_extension p),
      (2, has_allowed_size e p),
      (4, has_variance e p),
      (5, has_dims_and_shape e p),
      (6, \<not> has_duplicate e p cs)]"

fun first_failure :: "(int \<times> bool) list \<Rightarrow> int" where
  "first_failure [] = 0"
| "first_failure ((code, passes) # rules) = (if passes then first_failure rules else code)"

text \<open>
  The pool of the specification: the entries checked so far that were given code 0.
\<close>

definition accepted_set :: "(string \<times> int) list \<Rightarrow> (string \<times> int) list" where
  "accepted_set cs = filter (\<lambda>c. snd c = 0) cs"

definition passes_first_five :: "'img lib \<Rightarrow> string \<Rightarrow> bool" where
  "passes_first_five e p \<longleftrightarrow>
     is_decodable e p \<and> has_allowed_extension p \<and> has_allowed_size e p
     \<and> has_variance e p \<and> has_dims_and_shape e p"

text \<open>The comparison of the file at \<open>p\<close> with the file of an entry raises \<open>ValueError\<close>.\<close>

definition comparison_fails :: "'img lib \<Rightarrow> string \<Rightarrow> string \<times> int \<Rightarrow> bool" where
  "comparison_fails e p c \<longleftrightarrow>
     (case Image_open e p of
        Inl x \<Rightarrow> False
      | Inr im1 \<Rightarrow>
          (case Image_open e (fst c) of
             Inl x \<Rightarrow> False
           | Inr im2 \<Rightarrow> difference_getbbox e im1 im2 = Inl ValueError))"





text \<open>Reading a decimal numeral back, leading zeros included.\<close>

definition digit_val :: "char \<Rightarrow> nat" where
  "digit_val c = of_char c - 48"

definition nat_of_str :: "string \<Rightarrow> nat" where
  "nat_of_str s = foldl (\<lambda>a c. 10 * a + digit_val c) 0 s"

text \<open>
  File names as a file system has them: not empty and without a separator.
\<close>

fun names_ok :: "node list \<Rightarrow> bool" where
  "names_ok [] \<longleftrightarrow> True"
| "names_ok (File x # names) \<longleftrightarrow> x \<noteq> [] \<and> CHR ''/'' \<notin> set x \<and> names_ok names"
| "names_ok (Dir x kids # names) \<longleftrightarrow>
     x \<noteq> [] \<and> CHR ''/'' \<notin> set x \<and> names_ok kids \<and> names_ok names"

text \<open>
  Every entry below a listing, files and directories alike, as the names of the
  directories that lead to it and its own name. An entry is visible to the scan when none
  of these names begins with a dot and its own name contains a dot. \<open>scan_root\<close> is the
  directory part the pattern is split down to, and \<open>entry_path\<close> the path \<open>glob\<close> builds for
  an entry.
\<close>

fun walk :: "node list \<Rightarrow> (string list \<times> string) list" where
  "walk [] = []"
| "walk (File x # names) = ([], x) # walk names"
| "walk (Dir x kids # names) =
     ([], x) # map (\<lambda>(ds, n). (x # ds, n)) (walk kids) @ walk names"

definition visible :: "string list \<times> string \<Rightarrow> bool" where
  "visible entry \<longleftrightarrow>
     list_all (\<lambda>d. \<not> ishidden d) (fst entry) \<and> \<not> ishidden (snd entry)
     \<and> CHR ''.'' \<in> set (snd entry)"

definition scan_root :: "string \<Rightarrow> string" where
  "scan_root input_dir =
     fst (os_path_split (fst (os_path_split (os_path_join input_dir ''**/*.*''))))"

definition entry_path :: "string \<Rightarrow> string list \<times> string \<Rightarrow> string" where
  "entry_path topdir entry =
     os_path_join (os_path_join topdir (foldr glob_join (fst entry) [])) (snd entry)"

section \<open>A small file system to run the pipeline on\<close>

text \<open>
  Pictures with a mode, a size, the variances of their bands and the number of the
  pattern they are cut from, beginning at the top left corner: two pictures of the same
  pattern have the same pixels wherever both have pixels, and pictures of different
  patterns differ. A truncated picture opens, but its pixels do not decode: whatever
  decodes them raises \<open>IOError\<close>. As in PIL, the difference of two pictures is taken on the
  area they share, and pictures of different modes raise \<open>ValueError\<close>.
\<close>

record picture =
  p_mode :: string
  p_width :: nat
  p_height :: nat
  p_var :: "rat list"
  p_pixels :: nat
  p_truncated :: bool

definition gray :: "nat \<Rightarrow> picture" where
  "gray k = \<lparr>p_mode = ''L'', p_width = 200, p_height = 200, p_var = [25], p_pixels = k,
             p_truncated = False\<rparr>"

text \<open>Path, size in bytes and decoded picture (\<open>None\<close> for a file that does not open).\<close>

definition demo_files :: "(string \<times> nat \<times> picture option) list" where
  "demo_files =
    [(''in/a.jpg'', 20000, Some (gray 1)),
     (''in/b.JPG'', 20000, Some (gray 1)),
     (''in/notes.txt'', 300, None),
     (''in/small.jpeg'', 9000, Some (gray 8)),
     (''in/edge.jpg'', 10000, Some (gray 2)),
     (''in/flat.jpg'', 15000, Some ((gray 3)\<lparr>p_var := [0]\<rparr>)),
     (''in/thin.jpg'', 15000, Some ((gray 4)\<lparr>p_width := 50\<rparr>)),
     (''in/rgb.jpg'', 30000, Some ((gray 5)\<lparr>p_mode := ''RGB'', p_var := [25, 30, 9]\<rparr>)),
     (''in/draw.png'', 30000, Some (gray 6)),
     (''in/other.jpg'', 20000, Some (gray 7)),
     (''in/padded.jpg'', 12000, Some (gray 8)),
     (''in/wide.jpg'', 28000, Some ((gray 1)\<lparr>p_width := 304\<rparr>)),
     (''in/cut.jpg'', 11000, Some ((gray 9)\<lparr>p_truncated := True\<rparr>))]"

definition demo_lib :: "picture lib" where
  "demo_lib =
    \<lparr>Image_open = (\<lambda>p. case map_of demo_files p of
                           None \<Rightarrow> Inl IOError
                         | Some (n, None) \<Rightarrow> Inl IOError
                         | Some (n, Some im) \<Rightarrow> Inr im),
     getsize = (\<lambda>p. case map_of demo_files p of None \<Rightarrow> 0 | Some (n, im) \<Rightarrow> n),
     stat_var = (\<lambda>im. if p_truncated im then Inl IOError else Inr (p_var im)),
     img_size = (\<lambda>im. (p_width im, p_height im)),
     array_shape = (\<lambda>im. if p_truncated im then Inl IOError
                          else if p_mode im = ''L'' then Inr [p_height im, p_width im]
                          else Inr [p_height im, p_width im, 3]),
     difference_getbbox = (\<lambda>a b.
        if p_truncated a \<or> p_truncated b then Inl IOError
        else if p_mode a \<noteq> p_mode b then Inl ValueError
        else if p_pixels a = p_pixels b then Inr None
        else Inr (Some (0, 0, min (p_width a) (p_width b), min (p_height a) (p_height b))))\<rparr>"

text \<open>The listing of the directory \<open>in\<close>, with a file without a dot and a hidden directory.\<close>

definition demo_listing :: "node list" where
  "demo_listing =
     [File ''other.jpg'', File ''b.JPG'', File ''README'', File ''a.jpg'', File ''notes.txt'',
      Dir ''.cache'' [File ''a.jpg'']]"

text \<open>A tree with a file without a dot, a hidden directory and a directory with a dot.\<close>

definition demo_tree :: "node list" where
  "demo_tree =
     [File ''README'', File ''b.jpg'', Dir ''sub'' [File ''c.jpeg'', File ''Makefile''],
      Dir ''.git'' [File ''x.jpg''], Dir ''d.v1'' [File ''noext'']]"

lemmas demo_eval =
  demo_lib_def demo_files_def gray_def validate_file_def check_files_def is_equal_def
  lower_def lower_char_def endswith_any_def endswith_def allowed_extensions_def
  has_allowed_extension_def pool_opens_def in_pool_def

lemmas path_eval =
  get_files_def glob_recursive_def os_path_join_def os_path_split_def rstrip_sep_def
  startswith_def endswith_def glob1_def ishidden_def glob_join_def fnmatch_star_dot_star_def
  less_eq_char_def less_char_def

section \<open>Properties of the loops\<close>

lemma compare_loop_codes:
  "compare_loop e im1 cs = Inr n \<Longrightarrow> n = 0 \<or> n = 6"
  by (induction cs) (auto split: sum.splits if_splits)

lemma compare_loop_has_duplicate:
  assumes "Image_open e p = Inr im1" and "compare_loop e im1 cs = Inr n"
  shows "n = (if has_duplicate e p cs then 6 else 0)"
  using assms
  by (induction cs)
     (auto simp: in_pool_def has_duplicate_def equals_entry_def split: sum.splits if_splits)

lemma compare_loop_filter:
  "compare_loop e im1 (filter in_pool cs) = compare_loop e im1 cs"
  by (induction cs) (auto simp: in_pool_def split: sum.splits)

lemma validate_file_filter:
  "validate_file e p out (filter in_pool cs) = validate_file e p out cs"
  by (simp add: validate_file_def compare_loop_filter split: sum.splits exn.splits prod.splits)

lemma validate_file_first_failure:
  assumes "validate_file e p out cs = Inr n"
  shows "n = first_failure (rule_checks e p cs)"
proof (cases "Image_open e p")
  case (Inl x)
  with assms show ?thesis
    by (cases x) (simp_all add: validate_file_def rule_checks_def is_decodable_def)
next
  case (Inr im)
  show ?thesis
    using assms Inr compare_loop_has_duplicate[OF Inr, of cs]
    by (auto simp: validate_file_def rule_checks_def is_decodable_def has_allowed_extension_def
          has_allowed_size_def has_variance_def has_dims_and_shape_def Let_def
          split: prod.splits sum.splits if_splits)
qed


lemma validate_file_opened:
  "validate_file e p out cs = Inr n \<Longrightarrow> n \<noteq> 3 \<Longrightarrow> \<not> isl (Image_open e p)"
  by (auto simp: validate_file_def split: sum.splits exn.splits)




lemma pool_opens_snoc:
  "pool_opens e cs \<Longrightarrow> validate_file e p out cs = Inr n \<Longrightarrow> pool_opens e (cs @ [(p, n)])"
  using validate_file_opened[of e p out cs n]
  by (auto simp: pool_opens_def in_pool_def)

lemma check_loop_step:
  "check_loop e out files acc = Inr res \<Longrightarrow>
   \<exists>new. res = acc @ new \<and> map fst new = files \<and>
     (\<forall>i<length files.
        validate_file e (files ! i) out (acc @ take i new) = Inr (snd (new ! i)))"
proof (induction files arbitrary: acc)
  case Nil
  then show ?case by simp
next
  case (Cons f files)
  from Cons.prems obtain n where n: "validate_file e f out acc = Inr n"
    and rest: "check_loop e out files (acc @ [(f, n)]) = Inr res"
    by (auto split: sum.splits)
  from Cons.IH[OF rest] obtain new where
    new: "res = (acc @ [(f, n)]) @ new" "map fst new = files"
    and step: "\<forall>i<length files.
        validate_file e (files ! i) out ((acc @ [(f, n)]) @ take i new) = Inr (snd (new ! i))"
    by blast
  have "validate_file e ((f # files) ! i) out (acc @ take i ((f, n) # new))
          = Inr (snd (((f, n) # new) ! i))"
    if "i < length (f # files)" for i
  proof (cases i)
    case 0
    then show ?thesis using n by simp
  next
    case (Suc k)
    then show ?thesis using step that by simp
  qed
  then show ?case
    using new by (intro exI[of _ "(f, n) # new"]) simp
qed

lemma check_loop_pool_opens:
  "check_loop e out files acc = Inr res \<Longrightarrow> pool_opens e acc \<Longrightarrow> pool_opens e res"
proof (induction files arbitrary: acc)
  case Nil
  then show ?case by simp
next
  case (Cons f files)
  from Cons.prems(1) obtain n where n: "validate_file e f out acc = Inr n"
    and rest: "check_loop e out files (acc @ [(f, n)]) = Inr res"
    by (auto split: sum.splits)
  from Cons.IH[OF rest pool_opens_snoc[OF Cons.prems(2) n]] show ?case .
qed



lemma check_files_step:
  assumes "check_files e files out = Inr checked" and "i < length files"
  shows "validate_file e (files ! i) out (take i checked) = Inr (snd (checked ! i))"
  using check_loop_step[of e out files "[]" checked] assms
  by (auto simp: check_files_def)

lemma check_files_fst:
  assumes "check_files e files out = Inr checked"
  shows "map fst checked = files" and "pool_opens e checked"
proof -
  show "map fst checked = files"
    using check_loop_step[of e out files "[]" checked] assms by (auto simp: check_files_def)
  show "pool_opens e checked"
    using check_loop_pool_opens[of e out files "[]" checked] assms
    by (simp add: check_files_def pool_opens_def)
qed

lemma check_files_code:
  assumes run: "check_files e files out = Inr checked" and i: "i < length files"
  shows "snd (checked ! i) = first_failure (rule_checks e (files ! i) (take i checked))"
  using validate_file_first_failure[OF check_files_step[OF run i]] .

lemma separate_loop_filter:
  "separate_loop cs v iv
     = (v @ filter (\<lambda>c. snd c = 0) cs, iv @ filter (\<lambda>c. snd c \<noteq> 0) cs)"
  by (induction cs arbitrary: v iv) auto

lemma separate_files_filter:
  "separate_files cs = (filter (\<lambda>c. snd c = 0) cs, filter (\<lambda>c. snd c \<noteq> 0) cs)"
  by (simp add: separate_files_def separate_loop_filter)

lemma first_failure_six:
  "first_failure (rule_checks e p cs) = 6 \<longleftrightarrow> passes_first_five e p \<and> has_duplicate e p cs"
  by (simp add: rule_checks_def passes_first_five_def)

lemma first_failure_zero:
  "first_failure (rule_checks e p cs) = 0 \<longleftrightarrow> passes_first_five e p \<and> \<not> has_duplicate e p cs"
  by (simp add: rule_checks_def passes_first_five_def)

lemma pool_opens_take: "pool_opens e cs \<Longrightarrow> pool_opens e (take i cs)"
  by (auto simp: pool_opens_def list_all_iff dest: in_set_takeD)

lemma compare_loop_skip_failed:
  assumes "Image_open e p = Inr im1"
  shows "compare_loop e im1 (filter (\<lambda>c. \<not> comparison_fails e p c) cs) = compare_loop e im1 cs"
  using assms
  by (induction cs)
     (auto simp: comparison_fails_def is_equal_def split: sum.splits)






lemma pre_processsing_copied:
  assumes "check_files e (get_files listing input_dir) output_dir = Inr checked"
  shows "copied (pre_processsing e listing cwd input_dir output_dir logfile)
           = copy_valid_files (accepted_set checked) output_dir"
  using assms
  by (simp add: pre_processsing_def Let_def separate_files_filter accepted_set_def
           split: prod.splits)

lemma demo_scan:
  "get_files demo_listing ''in'' = [''in/a.jpg'', ''in/b.JPG'', ''in/notes.txt'', ''in/other.jpg'']"
  by (simp add: demo_listing_def path_eval)

lemma demo_checked:
  "check_files demo_lib [''in/a.jpg'', ''in/b.JPG'', ''in/notes.txt'', ''in/other.jpg''] ''out''
     = Inr [(''in/a.jpg'', 0), (''in/b.JPG'', 6), (''in/notes.txt'', 3), (''in/other.jpg'', 0)]"
  by (simp add: demo_eval)

lemma truncated_file_ends_run:
  "check_files demo_lib [''in/a.jpg'', ''in/cut.jpg'', ''in/other.jpg''] ''out'' = Inl IOError"
  by (simp add: demo_eval)

lemma digit_val_digit_char: "d < 10 \<Longrightarrow> digit_val (digit_char d) = d"
proof -
  assume "d < 10"
  then have "d \<in> {0, 1, 2, 3, 4, 5, 6, 7, 8, 9}" by auto
  then show ?thesis
    by (auto simp: digit_val_def digit_char_def)
qed

lemma nat_of_str_snoc: "nat_of_str (s @ [c]) = 10 * nat_of_str s + digit_val c"
  by (simp add: nat_of_str_def)

lemma nat_of_str_str_nat: "nat_of_str (str_nat n) = n"
proof (induction n rule: str_nat.induct)
  case (1 n)
  show ?case
  proof (cases "n < 10")
    case True
    then show ?thesis
      using digit_val_digit_char[of n] by (simp add: str_nat.simps[of n] nat_of_str_def)
  next
    case False
    then show ?thesis
      using 1 digit_val_digit_char[of "n mod 10"]
      by (simp add: str_nat.simps[of n] nat_of_str_snoc)
  qed
qed

lemma nat_of_str_zeros: "nat_of_str (replicate k (CHR ''0'') @ s) = nat_of_str s"
proof -
  have "foldl (\<lambda>a c. 10 * a + digit_val c) 0 (replicate k (CHR ''0'')) = 0"
    by (induction k) (simp_all add: digit_val_def)
  then show ?thesis by (simp add: nat_of_str_def)
qed

lemma nat_of_str_format_06d: "nat_of_str (format_06d n) = n"
  by (simp add: format_06d_def nat_of_str_zeros nat_of_str_str_nat)

lemma str_nat_not_Nil: "str_nat n \<noteq> []"
  by (subst str_nat.simps) simp

lemma length_str_nat: "0 < k \<Longrightarrow> n < 10 ^ k \<Longrightarrow> length (str_nat n) \<le> k"
proof (induction k arbitrary: n)
  case 0
  then show ?case by simp
next
  case (Suc k)
  show ?case
  proof (cases "n < 10")
    case True
    then show ?thesis by (simp add: str_nat.simps[of n])
  next
    case False
    then have k: "0 < k" using Suc.prems by (cases k) auto
    have "n div 10 < 10 ^ k" using Suc.prems by (simp add: less_mult_imp_div_less mult.commute)
    from Suc.IH[OF k this] False show ?thesis by (simp add: str_nat.simps[of n])
  qed
qed

lemma length_format_06d: "n < 1000000 \<Longrightarrow> length (format_06d n) = 6"
  using length_str_nat[of 6 n] by (simp add: format_06d_def)

lemma digit_char_not_sep: "d < 10 \<Longrightarrow> digit_char d \<noteq> CHR ''/''"
proof -
  assume "d < 10"
  then have "d \<in> {0, 1, 2, 3, 4, 5, 6, 7, 8, 9}" by auto
  then show ?thesis by (auto simp: digit_char_def)
qed

lemma hd_str_nat: "hd (str_nat n) \<noteq> CHR ''/''"
proof (induction n rule: str_nat.induct)
  case (1 n)
  show ?case
  proof (cases "n < 10")
    case True
    then show ?thesis using digit_char_not_sep[of n] by (simp add: str_nat.simps[of n])
  next
    case False
    then show ?thesis using 1 str_nat_not_Nil[of "n div 10"] by (simp add: str_nat.simps[of n])
  qed
qed

lemma format_06d_not_abs: "\<not> startswith (format_06d n @ s) ''/''"
proof -
  have "format_06d n \<noteq> []" by (simp add: format_06d_def str_nat_not_Nil)
  moreover have "hd (format_06d n) \<noteq> CHR ''/''"
    using hd_str_nat[of n] str_nat_not_Nil[of n]
    by (cases "6 - length (str_nat n)") (simp_all add: format_06d_def)
  ultimately show ?thesis
    by (cases "format_06d n") (simp_all add: startswith_def)
qed

lemma destination_inj:
  assumes "os_path_join out (format_06d m @ ''.jpg'') = os_path_join out (format_06d n @ ''.jpg'')"
  shows "m = n"
proof -
  have "format_06d m = format_06d n"
    using assms format_06d_not_abs[of m "''.jpg''"] format_06d_not_abs[of n "''.jpg''"]
    by (simp add: os_path_join_def split: if_splits)
  then show ?thesis using nat_of_str_format_06d by metis
qed

lemma length_copy_loop: "length (copy_loop i xs out) = length xs"
  by (induction xs arbitrary: i) simp_all

lemma nth_copy_loop:
  "k < length xs \<Longrightarrow>
   copy_loop i xs out ! k = (fst (xs ! k), os_path_join out (format_06d (i + k + 1) @ ''.jpg''))"
proof (induction xs arbitrary: i k)
  case Nil
  then show ?case by simp
next
  case (Cons x xs)
  then show ?case by (cases k) simp_all
qed

lemma copy_valid_files_map:
  "copy_valid_files valid_files output_dir =
     map (\<lambda>i. (fst (valid_files ! i), os_path_join output_dir (format_06d (i + 1) @ ''.jpg'')))
       [0..<length valid_files]"
  by (rule nth_equalityI) (simp_all add: copy_valid_files_def length_copy_loop nth_copy_loop)

lemma distinct_destinations: "distinct (map snd (copy_valid_files valid_files output_dir))"
proof -
  have "map snd (copy_valid_files valid_files output_dir)
          = map (\<lambda>i. os_path_join output_dir (format_06d (i + 1) @ ''.jpg'')) [0..<length valid_files]"
    by (simp add: copy_valid_files_map comp_def)
  moreover have "inj_on (\<lambda>i. os_path_join output_dir (format_06d (i + 1) @ ''.jpg'')) S" for S
    by (rule inj_onI) (use destination_inj in fastforce)
  ultimately show ?thesis by (simp add: distinct_map)
qed

lemma isabs_iff: "os_path_isabs s \<longleftrightarrow> s \<noteq> [] \<and> hd s = CHR ''/''"
  by (cases s) (auto simp: os_path_isabs_def startswith_def)

lemma isabs_join: "os_path_isabs (os_path_join a b) \<longleftrightarrow> os_path_isabs a \<or> os_path_isabs b"
proof (cases "startswith b ''/''")
  case True
  then show ?thesis by (simp add: os_path_join_def os_path_isabs_def)
next
  case False
  then have b: "\<not> os_path_isabs b" by (simp add: os_path_isabs_def)
  show ?thesis
  proof (cases a)
    case Nil
    then show ?thesis using False b by (simp add: os_path_join_def isabs_iff)
  next
    case (Cons c cs)
    then show ?thesis using False b by (auto simp: os_path_join_def isabs_iff)
  qed
qed

lemma isabs_Nil: "\<not> os_path_isabs []"
  by (simp add: isabs_iff)

lemma isabs_glob_join: "os_path_isabs (glob_join a b) \<longleftrightarrow> os_path_isabs a \<or> os_path_isabs b"
  by (auto simp: glob_join_def isabs_join isabs_Nil)

lemma name_not_abs: "x \<noteq> [] \<Longrightarrow> CHR ''/'' \<notin> set x \<Longrightarrow> \<not> os_path_isabs x"
  by (cases x) (auto simp: isabs_iff)

lemma rlistdir_relative:
  "names_ok listing \<Longrightarrow> (y, ks) \<in> set (rlistdir listing) \<Longrightarrow> \<not> os_path_isabs y \<and> names_ok ks"
proof (induction listing arbitrary: y ks rule: rlistdir.induct)
  case 1
  then show ?case by simp
next
  case (2 x names)
  then show ?case by simp
next
  case (3 x kids names)
  then show ?case
    by (auto simp: isabs_glob_join name_not_abs split: if_splits)
qed

lemma names_ok_name:
  "names_ok ks \<Longrightarrow> k \<in> set ks \<Longrightarrow> node_name k \<noteq> [] \<and> CHR ''/'' \<notin> set (node_name k)"
  by (induction ks rule: names_ok.induct) auto

lemma glob1_relative: "names_ok ks \<Longrightarrow> n \<in> set (glob1 ks) \<Longrightarrow> \<not> os_path_isabs n"
  using names_ok_name name_not_abs by (fastforce simp: glob1_def)

lemma hd_rstrip_sep: "rstrip_sep s \<noteq> [] \<Longrightarrow> hd (rstrip_sep s) = hd s"
proof (induction s rule: rev_induct)
  case Nil
  then show ?case by (simp add: rstrip_sep_def)
next
  case (snoc c s)
  show ?case
  proof (cases "c = CHR ''/''")
    case True
    then have eq: "rstrip_sep (s @ [c]) = rstrip_sep s" by (simp add: rstrip_sep_def)
    with snoc have "hd (rstrip_sep (s @ [c])) = hd s" by simp
    moreover have "s \<noteq> []" using snoc.prems eq by (auto simp: rstrip_sep_def)
    ultimately show ?thesis by simp
  next
    case False
    then show ?thesis by (simp add: rstrip_sep_def)
  qed
qed

lemma isabs_split_head: "os_path_isabs (fst (os_path_split p)) \<Longrightarrow> os_path_isabs p"
proof -
  assume a: "os_path_isabs (fst (os_path_split p))"
  define tail where "tail = rev (takeWhile (\<lambda>c. c \<noteq> CHR ''/'') (rev p))"
  define head where "head = take (length p - length tail) p"
  have hd_head: "head \<noteq> [] \<Longrightarrow> hd head = hd p \<and> p \<noteq> []"
    by (auto simp: head_def hd_take)
  have "fst (os_path_split p) = rstrip_sep head \<or> fst (os_path_split p) = head"
    by (simp add: os_path_split_def Let_def head_def tail_def)
  then show ?thesis
  proof
    assume "fst (os_path_split p) = rstrip_sep head"
    with a have r: "rstrip_sep head \<noteq> []" "hd (rstrip_sep head) = CHR ''/''"
      by (auto simp: isabs_iff)
    then have "head \<noteq> []" by (auto simp: rstrip_sep_def)
    with r hd_rstrip_sep[of head] hd_head show ?thesis by (simp add: isabs_iff)
  next
    assume "fst (os_path_split p) = head"
    with a hd_head show ?thesis by (simp add: isabs_iff)
  qed
qed

lemma glob_recursive_set:
  "set (glob_recursive listing pathname) =
     (\<Union>(y, ks) \<in> set (([], listing) # rlistdir listing).
        (\<lambda>n. os_path_join (os_path_join (fst (os_path_split (fst (os_path_split pathname)))) y) n)
          ` set (glob1 ks))"
  by (auto simp: glob_recursive_def Let_def case_prod_beta)

lemma glob_recursive_relative:
  assumes "names_ok listing" "\<not> os_path_isabs pathname" "p \<in> set (glob_recursive listing pathname)"
  shows "\<not> os_path_isabs p"
proof -
  define top where "top = fst (os_path_split (fst (os_path_split pathname)))"
  have top: "\<not> os_path_isabs top"
    using assms(2) isabs_split_head unfolding top_def by blast
  from assms(3) obtain y ks n where
    y: "(y, ks) \<in> set (([], listing) # rlistdir listing)" and n: "n \<in> set (glob1 ks)"
    and p: "p = os_path_join (os_path_join top y) n"
    unfolding glob_recursive_set top_def by blast
  have "\<not> os_path_isabs y \<and> names_ok ks"
    using y assms(1) rlistdir_relative[of listing y ks] by (auto simp: isabs_iff)
  with top n p glob1_relative[of ks n] show ?thesis
    by (simp add: isabs_join)
qed

lemma get_files_relative:
  assumes "names_ok listing" "\<not> os_path_isabs input_dir" "p \<in> set (get_files listing input_dir)"
  shows "\<not> os_path_isabs p"
proof -
  have "\<not> os_path_isabs ''**/*.*''" by (simp add: isabs_iff)
  then have "\<not> os_path_isabs (os_path_join input_dir ''**/*.*'')"
    using assms(2) by (simp add: isabs_join)
  with assms(1,3) glob_recursive_relative show ?thesis
    by (auto simp: get_files_def)
qed

lemma isabs_normpath:
  assumes "os_path_isabs p"
  shows "os_path_isabs (os_path_normpath p)"
proof -
  from assms have s: "startswith p ''/''"
    by (simp add: os_path_isabs_def)
  from assms have ne: "p \<noteq> []"
    by (simp add: isabs_iff)
  have "os_path_isabs (replicate (Suc k) (CHR ''/'') @ j)" for k j
    by (simp add: isabs_iff)
  from this[of 0] this[of 1] show ?thesis
    using s ne by (simp add: os_path_normpath_def Let_def numeral_2_eq_2)
qed

lemma isabs_abspath: "os_path_isabs cwd \<Longrightarrow> os_path_isabs (os_path_abspath cwd path)"
  by (auto simp: os_path_abspath_def isabs_join intro: isabs_normpath)

lemma parse_parts_abs:
  assumes "os_path_isabs p"
  shows "\<exists>r ps. r \<noteq> [] \<and> parse_parts p = (r, r # ps)"
proof -
  from assms have p: "p \<noteq> []" "hd p = CHR ''/''" by (auto simp: isabs_iff)
  obtain r rel where s: "splitroot p = (r, rel)" by (cases "splitroot p")
  with p have "r \<noteq> []" by (auto simp: splitroot_def Let_def split: if_splits)
  with p s show ?thesis by (simp add: parse_parts_def)
qed

lemma parse_parts_rel:
  assumes "\<not> os_path_isabs p"
  shows "\<exists>ps. parse_parts p = ([], ps) \<and> [] \<notin> set ps"
proof (cases "p = []")
  case True
  then show ?thesis by (simp add: parse_parts_def)
next
  case False
  with assms have "splitroot p = ([], p)" by (auto simp: splitroot_def isabs_iff)
  with False show ?thesis by (auto simp: parse_parts_def)
qed

lemma relative_to_raises:
  assumes "\<not> os_path_isabs p" "os_path_isabs other"
  shows "relative_to p other = Inl ValueError"
proof -
  obtain ps where ps: "parse_parts p = ([], ps)" "[] \<notin> set ps"
    using parse_parts_rel[OF assms(1)] by blast
  obtain r qs where r: "r \<noteq> []" "parse_parts other = (r, r # qs)"
    using parse_parts_abs[OF assms(2)] by blast
  have "take (length ([] # r # qs)) ps \<noteq> [] # r # qs"
  proof
    assume "take (length ([] # r # qs)) ps = [] # r # qs"
    then have "[] \<in> set (take (length ([] # r # qs)) ps)" by simp
    then have "[] \<in> set ps" by (rule in_set_takeD)
    with ps(2) show False by simp
  qed
  with ps r show ?thesis by (simp add: relative_to_def)
qed

lemma write_log_file_raises:
  assumes "invalid_files \<noteq> []" "\<not> os_path_isabs (fst (hd invalid_files))"
    "\<not> os_path_isabs input_dir" "os_path_isabs cwd"
  shows "write_log_file cwd logfile invalid_files input_dir = ([], Some ValueError)"
  using assms relative_to_raises[OF assms(2) isabs_abspath[OF assms(4), of input_dir]]
  by (cases invalid_files) (simp_all add: write_log_file_def)

lemma glob1_Cons:
  "glob1 (k # ks) =
     (if \<not> ishidden (node_name k) \<and> CHR ''.'' \<in> set (node_name k) then [node_name k] else [])
     @ glob1 ks"
  by (simp add: glob1_def fnmatch_star_dot_star_def)

lemma glob1_Nil: "glob1 [] = []"
  by (simp add: glob1_def)

lemma glob_join_Nil: "glob_join x [] = x"
  by (simp add: glob_join_def)

lemma visible_top: "visible ([], x) \<longleftrightarrow> \<not> ishidden x \<and> CHR ''.'' \<in> set x"
  by (simp add: visible_def)

lemma visible_below: "visible (x # ds, n) \<longleftrightarrow> \<not> ishidden x \<and> visible (ds, n)"
  by (auto simp: visible_def)

lemma filter_visible_below:
  "filter visible (map (\<lambda>(ds, n). (x # ds, n)) es) =
     (if ishidden x then [] else map (\<lambda>(ds, n). (x # ds, n)) (filter visible es))"
  by (induction es) (auto simp: visible_below)

lemma glob_walk_mset:
  "mset (concat (map (\<lambda>(y, ks). map (g y) (glob1 ks)) (rlistdir listing)))
     + mset (map (g []) (glob1 listing))
   = mset (map (\<lambda>(ds, n). g (foldr glob_join ds []) n) (filter visible (walk listing)))"
proof (induction listing arbitrary: g rule: rlistdir.induct)
  case 1
  then show ?case by (simp add: glob1_Nil)
next
  case (2 x names)
  from 2[of g] show ?case
    by (simp add: glob1_Cons visible_top)
next
  case (3 x kids names)
  let ?F = "\<lambda>(y, ks). map (g y) (glob1 ks)"
  let ?F' = "\<lambda>(y, ks). map (g (glob_join x y)) (glob1 ks)"
  let ?R = "\<lambda>(ds, n). g (foldr glob_join ds []) n"
  let ?R' = "\<lambda>(ds, n). g (glob_join x (foldr glob_join ds [])) n"
  let ?X = "if \<not> ishidden x \<and> CHR ''.'' \<in> set x then [x] else []"
  have names: "mset (concat (map ?F (rlistdir names))) + mset (map (g []) (glob1 names))
      = mset (map ?R (filter visible (walk names)))"
    using 3(2)[of g] .
  have top: "map (g []) (glob1 (Dir x kids # names)) = map (g []) ?X @ map (g []) (glob1 names)"
    by (simp add: glob1_Cons)
  show ?case
  proof (cases "ishidden x")
    case True
    have l: "concat (map ?F (rlistdir (Dir x kids # names))) = concat (map ?F (rlistdir names))"
      using True by simp
    have r: "filter visible (walk (Dir x kids # names)) = filter visible (walk names)"
      using True by (simp add: visible_top filter_visible_below)
    show ?thesis
      unfolding l r top using names True by simp
  next
    case False
    have kids: "mset (concat (map ?F' (rlistdir kids))) + mset (map (g x) (glob1 kids))
      = mset (map ?R' (filter visible (walk kids)))"
      using 3(1)[OF False, of "\<lambda>y. g (glob_join x y)"] by (simp add: glob_join_Nil)
    have m1: "map ?F (map (\<lambda>(y, ks). (glob_join x y, ks)) (rlistdir kids))
            = map ?F' (rlistdir kids)"
      by (simp add: case_prod_unfold)
    have m2: "map ?R (map (\<lambda>(ds, n). (x # ds, n)) (filter visible (walk kids)))
            = map ?R' (filter visible (walk kids))"
      by (simp add: case_prod_unfold)
    have l: "concat (map ?F (rlistdir (Dir x kids # names)))
        = map (g x) (glob1 kids) @ concat (map ?F' (rlistdir kids)) @ concat (map ?F (rlistdir names))"
      using False by (simp add: m1 del: map_map)
    have r: "map ?R (filter visible (walk (Dir x kids # names)))
        = map (g []) ?X @ map ?R' (filter visible (walk kids)) @ map ?R (filter visible (walk names))"
      using False by (simp add: visible_top filter_visible_below m2 del: map_map)
    have "mset (concat (map ?F (rlistdir (Dir x kids # names))))
            + mset (map (g []) (glob1 (Dir x kids # names)))
        = mset (map (g []) ?X)
          + (mset (concat (map ?F' (rlistdir kids))) + mset (map (g x) (glob1 kids)))
          + (mset (concat (map ?F (rlistdir names))) + mset (map (g []) (glob1 names)))"
      unfolding l top by (simp only: mset_append ac_simps)
    also have "\<dots> = mset (map ?R (filter visible (walk (Dir x kids # names))))"
      unfolding kids names r by (simp only: mset_append ac_simps)
    finally show ?thesis .
  qed
qed

lemma glob_recursive_mset:
  "mset (glob_recursive listing (os_path_join input_dir ''**/*.*''))
     = mset (map (entry_path (scan_root input_dir)) (filter visible (walk listing)))"
proof -
  let ?g = "\<lambda>y. os_path_join (os_path_join (scan_root input_dir) y)"
  have g: "glob_recursive listing (os_path_join input_dir ''**/*.*'')
      = map (?g []) (glob1 listing) @ concat (map (\<lambda>(y, ks). map (?g y) (glob1 ks)) (rlistdir listing))"
    by (simp add: glob_recursive_def scan_root_def Let_def case_prod_unfold comp_def)
  have e: "entry_path (scan_root input_dir) = (\<lambda>(ds, n). ?g (foldr glob_join ds []) n)"
    by (auto simp: entry_path_def fun_eq_iff)
  show ?thesis
    unfolding g e using glob_walk_mset[of ?g listing] by (simp only: mset_append ac_simps)
qed

lemma get_files_walk:
  "get_files listing input_dir
     = sort (map (entry_path (scan_root input_dir)) (filter visible (walk listing)))"
  unfolding get_files_def
  by (rule properties_for_sort) (simp_all add: glob_recursive_mset)

section \<open>The claims\<close>



text \<open>
  C6. For a file that decodes and has an allowed extension, the size rule is strict: the
  file is given code 2 exactly when its size is at most 10000 bytes, so 10000 bytes fail
  and only more than 10000 pass; the picture plays no part.
\<close>

theorem file_size_rule:
  assumes "is_decodable e p" and "has_allowed_extension p"
  shows "validate_file e p out cs = Inr 2 \<longleftrightarrow> getsize e p \<le> 10000"
proof -
  from assms(1) obtain im where im: "Image_open e p = Inr im"
    by (cases "Image_open e p") (auto simp: is_decodable_def)
  show ?thesis
    using im assms(2)
    by (auto simp: validate_file_def has_allowed_extension_def Let_def
             split: prod.splits sum.splits if_splits dest: compare_loop_codes)
qed

theorem file_size_rule_witness:
  "is_decodable demo_lib ''in/edge.jpg'' \<and> has_allowed_extension ''in/edge.jpg''
   \<and> getsize demo_lib ''in/edge.jpg'' = 10000
   \<and> validate_file demo_lib ''in/edge.jpg'' ''out'' [] = Inr 2"
proof -
  have d: "is_decodable demo_lib ''in/edge.jpg''"
    by (simp add: demo_eval is_decodable_def)
  have x: "has_allowed_extension ''in/edge.jpg''"
    by (simp add: demo_eval)
  have s: "getsize demo_lib ''in/edge.jpg'' = 10000"
    by (simp add: demo_eval)
  from file_size_rule[OF d x, of "''out''" "[]"] s d x show ?thesis by simp
qed

text \<open>
  C7. A file that passes the first four rules is given code 5 exactly when its width is
  below 100, or its height is below 100, or its pixel array has more than two dimensions;
  a picture of 50 by 200 is given 5. Should building the pixel array raise, that
  exception leaves \<open>validate_file\<close>.
\<close>

theorem dims_and_shape_rule:
  assumes "Image_open e p = Inr im" and "has_allowed_extension p"
    and "getsize e p > 10000" and "stat_var e im = Inr var" and "sum_list var > 0"
  shows "(array_shape e im = Inr shape \<longrightarrow>
            (validate_file e p out cs = Inr 5 \<longleftrightarrow>
               fst (img_size e im) < 100 \<or> snd (img_size e im) < 100 \<or> length shape > 2))
       \<and> (array_shape e im = Inl x \<longrightarrow> validate_file e p out cs = Inl x)"
  using assms
  by (auto simp: validate_file_def has_allowed_extension_def Let_def
           split: prod.splits sum.splits if_splits dest: compare_loop_codes)

theorem dims_and_shape_rule_witness:
  "Image_open demo_lib ''in/thin.jpg'' = Inr ((gray 4)\<lparr>p_width := 50\<rparr>)
   \<and> has_allowed_extension ''in/thin.jpg''
   \<and> getsize demo_lib ''in/thin.jpg'' > 10000
   \<and> stat_var demo_lib ((gray 4)\<lparr>p_width := 50\<rparr>) = Inr [25]
   \<and> sum_list [25::rat] > 0
   \<and> array_shape demo_lib ((gray 4)\<lparr>p_width := 50\<rparr>) = Inr [200, 50]
   \<and> img_size demo_lib ((gray 4)\<lparr>p_width := 50\<rparr>) = (50, 200)
   \<and> validate_file demo_lib ''in/thin.jpg'' ''out'' [] = Inr 5"
proof -
  have a: "Image_open demo_lib ''in/thin.jpg'' = Inr ((gray 4)\<lparr>p_width := 50\<rparr>)"
    by (simp add: demo_eval)
  have b: "has_allowed_extension ''in/thin.jpg''"
    by (simp add: demo_eval)
  have c: "getsize demo_lib ''in/thin.jpg'' > 10000"
    by (simp add: demo_eval)
  have d: "stat_var demo_lib ((gray 4)\<lparr>p_width := 50\<rparr>) = Inr [25]"
    by (simp add: demo_eval)
  have d': "sum_list [25::rat] > 0"
    by simp
  have h: "array_shape demo_lib ((gray 4)\<lparr>p_width := 50\<rparr>) = Inr [200, 50]"
    by (simp add: demo_eval)
  have s: "img_size demo_lib ((gray 4)\<lparr>p_width := 50\<rparr>) = (50, 200)"
    by (simp add: demo_eval)
  from dims_and_shape_rule[OF a b c d d', of "[200, 50]" "''out''" "[]"] h s
  have "validate_file demo_lib ''in/thin.jpg'' ''out'' [] = Inr 5" by simp
  with a b c d d' h s show ?thesis by blast
qed



text \<open>
  C1, as the claim states it, fails: a file of 9000 bytes is given code 2, and the file after
  it with the same pixels is compared with it and given code 6, although no file before it
  was given code 0; against the files given 0 so far it would have been given 0.
\<close>

theorem comparison_pool_counterexample:
  "check_files demo_lib [''in/small.jpeg'', ''in/padded.jpg''] ''out''
     = Inr [(''in/small.jpeg'', 2), (''in/padded.jpg'', 6)]
   \<and> validate_file demo_lib ''in/padded.jpg'' ''out'' (accepted_set [(''in/small.jpeg'', 2)])
     = Inr 0"
  by (simp add: demo_eval accepted_set_def)

text \<open>
  C1, amended. Every checked file is appended to \<open>checked_files\<close>, and in a run that returns
  the duplicate check of a file uses exactly the entries checked strictly before it whose
  code is neither 3 nor 1: its code is what \<open>validate_file\<close> returns on those entries alone,
  and it is 6 exactly when the file passes the first five rules and equals one of them. It
  is never compared with itself or with a later file.
\<close>

theorem comparison_pool:
  assumes "check_files e files out = Inr checked"
  shows "map fst checked = files \<and>
     (\<forall>i<length files.
        validate_file e (files ! i) out (filter in_pool (take i checked))
          = Inr (snd (checked ! i))
        \<and> (snd (checked ! i) = 6 \<longleftrightarrow>
             passes_first_five e (files ! i) \<and> has_duplicate e (files ! i) (take i checked)))"
proof -
  have "validate_file e (files ! i) out (filter in_pool (take i checked))
          = Inr (snd (checked ! i))
        \<and> (snd (checked ! i) = 6 \<longleftrightarrow>
             passes_first_five e (files ! i) \<and> has_duplicate e (files ! i) (take i checked))"
    if i: "i < length files" for i
    using check_files_step[OF assms i] check_files_code[OF assms i]
    by (simp add: validate_file_filter first_failure_six)
  with check_files_fst(1)[OF assms] show ?thesis by blast
qed

theorem comparison_pool_witness:
  "check_files demo_lib [''in/small.jpeg'', ''in/padded.jpg''] ''out''
     = Inr [(''in/small.jpeg'', 2), (''in/padded.jpg'', 6)]
   \<and> filter in_pool [(''in/small.jpeg'', 2)] = [(''in/small.jpeg'', 2)]
   \<and> passes_first_five demo_lib ''in/padded.jpg''
   \<and> has_duplicate demo_lib ''in/padded.jpg'' [(''in/small.jpeg'', 2)]"
proof -
  have run: "check_files demo_lib [''in/small.jpeg'', ''in/padded.jpg''] ''out''
     = Inr [(''in/small.jpeg'', 2), (''in/padded.jpg'', 6)]"
    by (simp add: demo_eval)
  have pool: "filter in_pool [(''in/small.jpeg'', 2)] = [(''in/small.jpeg'', 2)]"
    by (simp add: in_pool_def)
  have "1 < length [''in/small.jpeg'', ''in/padded.jpg'']"
    by simp
  from comparison_pool[OF run, THEN conjunct2, rule_format, OF this]
  have "passes_first_five demo_lib ''in/padded.jpg''
      \<and> has_duplicate demo_lib ''in/padded.jpg'' [(''in/small.jpeg'', 2)]"
    by simp
  with run pool show ?thesis by blast
qed

text \<open>
  C2, as the claim states it, fails for pictures of differing dimensions: the source never
  looks at the dimensions, and the library takes the difference on the area two pictures
  share. A picture of 304 by 200 whose left 200 columns are the picture of 200 by 200
  scanned before it is given code 6.
\<close>

theorem differing_dimensions_counterexample:
  "Image_open demo_lib ''in/a.jpg'' = Inr (gray 1)
   \<and> Image_open demo_lib ''in/wide.jpg'' = Inr ((gray 1)\<lparr>p_width := 304\<rparr>)
   \<and> img_size demo_lib (gray 1) = (200, 200)
   \<and> img_size demo_lib ((gray 1)\<lparr>p_width := 304\<rparr>) = (304, 200)
   \<and> check_files demo_lib [''in/a.jpg'', ''in/wide.jpg''] ''out''
       = Inr [(''in/a.jpg'', 0), (''in/wide.jpg'', 6)]"
  by (simp add: demo_eval)

text \<open>
  C2, amended. A comparison that raises \<open>ValueError\<close> makes \<open>is_equal\<close> return 6, which is not
  \<open>None\<close>: the two pictures do not count as equal, the candidate is not called a duplicate
  for it, the loop goes on with the next entry, and \<open>validate_file\<close> does what it would do
  without the entries whose comparison fails, so such a comparison ends no run. Two
  pictures count as equal exactly when the library's difference has no bounding box,
  whatever their dimensions are.
\<close>

theorem failed_comparison_skipped:
  "(difference_getbbox e im1 im2 = Inl ValueError \<longrightarrow> is_equal e im1 im2 = Inr (PyInt 6))
   \<and> (is_equal e im1 im2 = Inr PyNone \<longleftrightarrow> difference_getbbox e im1 im2 = Inr None)
   \<and> (comparison_fails e p c \<longrightarrow> \<not> equals_entry e p c)
   \<and> (comparison_fails e p c \<longrightarrow> validate_file e p out (c # cs) = validate_file e p out cs)
   \<and> validate_file e p out (filter (\<lambda>c. \<not> comparison_fails e p c) cs) = validate_file e p out cs"
proof (intro conjI)
  show "difference_getbbox e im1 im2 = Inl ValueError \<longrightarrow> is_equal e im1 im2 = Inr (PyInt 6)"
    by (simp add: is_equal_def)
  show "is_equal e im1 im2 = Inr PyNone \<longleftrightarrow> difference_getbbox e im1 im2 = Inr None"
    by (auto simp: is_equal_def split: sum.splits exn.splits option.splits)
  show "comparison_fails e p c \<longrightarrow> \<not> equals_entry e p c"
    by (auto simp: comparison_fails_def equals_entry_def is_equal_def split: sum.splits)
  show "comparison_fails e p c \<longrightarrow> validate_file e p out (c # cs) = validate_file e p out cs"
    by (auto simp: validate_file_def comparison_fails_def is_equal_def Let_def
             split: sum.splits exn.splits prod.splits)
  show "validate_file e p out (filter (\<lambda>c. \<not> comparison_fails e p c) cs) = validate_file e p out cs"
    by (simp add: validate_file_def compare_loop_skip_failed Let_def
             split: sum.splits exn.splits prod.splits)
qed

theorem failed_comparison_skipped_witness:
  "difference_getbbox demo_lib (gray 7) ((gray 5)\<lparr>p_mode := ''RGB'', p_var := [25, 30, 9]\<rparr>)
     = Inl ValueError
   \<and> is_equal demo_lib (gray 7) ((gray 5)\<lparr>p_mode := ''RGB'', p_var := [25, 30, 9]\<rparr>)
     = Inr (PyInt 6)
   \<and> comparison_fails demo_lib ''in/other.jpg'' (''in/rgb.jpg'', 5)
   \<and> validate_file demo_lib ''in/other.jpg'' ''out'' [(''in/rgb.jpg'', 5), (''in/a.jpg'', 0)]
       = validate_file demo_lib ''in/other.jpg'' ''out'' [(''in/a.jpg'', 0)]
   \<and> check_files demo_lib [''in/rgb.jpg'', ''in/other.jpg''] ''out''
       = Inr [(''in/rgb.jpg'', 5), (''in/other.jpg'', 0)]"
proof -
  have r: "difference_getbbox demo_lib (gray 7) ((gray 5)\<lparr>p_mode := ''RGB'', p_var := [25, 30, 9]\<rparr>)
     = Inl ValueError"
    by (simp add: demo_eval)
  have f: "comparison_fails demo_lib ''in/other.jpg'' (''in/rgb.jpg'', 5)"
    by (simp add: demo_eval comparison_fails_def)
  have run: "check_files demo_lib [''in/rgb.jpg'', ''in/other.jpg''] ''out''
       = Inr [(''in/rgb.jpg'', 5), (''in/other.jpg'', 0)]"
    by (simp add: demo_eval)
  note inst = failed_comparison_skipped[of demo_lib "gray 7"
      "(gray 5)\<lparr>p_mode := ''RGB'', p_var := [25, 30, 9]\<rparr>" "''in/other.jpg''"
      "(''in/rgb.jpg'', 5)" "''out''" "[(''in/a.jpg'', 0)]"]
  from inst r have e: "is_equal demo_lib (gray 7)
      ((gray 5)\<lparr>p_mode := ''RGB'', p_var := [25, 30, 9]\<rparr>) = Inr (PyInt 6)"
    by blast
  from inst f have s: "validate_file demo_lib ''in/other.jpg'' ''out''
        [(''in/rgb.jpg'', 5), (''in/a.jpg'', 0)]
       = validate_file demo_lib ''in/other.jpg'' ''out'' [(''in/a.jpg'', 0)]"
    by blast
  from r e f s run show ?thesis by blast
qed



text \<open>
  C9. In a run that reaches the copying, the copies are those of the accepted files only,
  in the order of the scan; the \<open>i\<close>-th of them, counted from 1, goes to \<open>output_dir\<close> under
  the name \<open>{i:06d}.jpg\<close>. The name has six digits up to 999999, it reads back as \<open>i\<close>, and
  no two files get the same destination, so no index is skipped, repeated or out of order.
\<close>

theorem sequential_output_names:
  "(\<not> has_magic input_dir
      \<and> check_files e (get_files listing input_dir) output_dir = Inr checked \<longrightarrow>
      copied (pre_processsing e listing cwd input_dir output_dir logfile)
        = copy_valid_files (accepted_set checked) output_dir)
   \<and> copy_valid_files valid_files output_dir =
       map (\<lambda>i. (fst (valid_files ! i), os_path_join output_dir (format_06d (i + 1) @ ''.jpg'')))
         [0..<length valid_files]
   \<and> (\<forall>i. i + 1 < 1000000 \<longrightarrow> length (format_06d (i + 1)) = 6)
   \<and> (\<forall>i. nat_of_str (format_06d (i + 1)) = i + 1)
   \<and> distinct (map snd (copy_valid_files valid_files output_dir))"
proof (intro conjI allI impI)
  show "copied (pre_processsing e listing cwd input_dir output_dir logfile)
        = copy_valid_files (accepted_set checked) output_dir"
    if "\<not> has_magic input_dir
      \<and> check_files e (get_files listing input_dir) output_dir = Inr checked"
    using that pre_processsing_copied by blast
  show "copy_valid_files valid_files output_dir =
       map (\<lambda>i. (fst (valid_files ! i), os_path_join output_dir (format_06d (i + 1) @ ''.jpg'')))
         [0..<length valid_files]"
    by (rule copy_valid_files_map)
  show "length (format_06d (i + 1)) = 6" if "i + 1 < 1000000" for i
    using that by (rule length_format_06d)
  show "nat_of_str (format_06d (i + 1)) = i + 1" for i
    by (rule nat_of_str_format_06d)
  show "distinct (map snd (copy_valid_files valid_files output_dir))"
    by (rule distinct_destinations)
qed

theorem sequential_output_names_witness:
  "\<not> has_magic ''in''
   \<and> check_files demo_lib (get_files demo_listing ''in'') ''out''
       = Inr [(''in/a.jpg'', 0), (''in/b.JPG'', 6), (''in/notes.txt'', 3), (''in/other.jpg'', 0)]
   \<and> copied (pre_processsing demo_lib demo_listing ''/home/u'' ''in'' ''out'' ''log.txt'')
     = [(''in/a.jpg'', ''out/000001.jpg''), (''in/other.jpg'', ''out/000002.jpg'')]
   \<and> copy_valid_files [(''in/a.jpg'', 0), (''in/other.jpg'', 0)] ''out''
     = [(''in/a.jpg'', ''out/000001.jpg''), (''in/other.jpg'', ''out/000002.jpg'')]
   \<and> length (format_06d (41 + 1)) = 6"
proof -
  have m: "\<not> has_magic ''in''"
    by (simp add: has_magic_def)
  have run: "check_files demo_lib (get_files demo_listing ''in'') ''out''
       = Inr [(''in/a.jpg'', 0), (''in/b.JPG'', 6), (''in/notes.txt'', 3), (''in/other.jpg'', 0)]"
    by (simp only: demo_scan demo_checked)
  have f: "format_06d (Suc 0) = ''000001''" "format_06d (Suc (Suc 0)) = ''000002''"
    by (simp_all add: format_06d_def str_nat.simps digit_char_def numeral_eq_Suc)
  have c: "copy_valid_files [(''in/a.jpg'', 0), (''in/other.jpg'', 0)] ''out''
     = [(''in/a.jpg'', ''out/000001.jpg''), (''in/other.jpg'', ''out/000002.jpg'')]"
    by (simp add: copy_valid_files_def f os_path_join_def startswith_def endswith_def)
  note inst = sequential_output_names[of "''in''" demo_lib demo_listing "''out''"
      "[(''in/a.jpg'', 0), (''in/b.JPG'', 6), (''in/notes.txt'', 3), (''in/other.jpg'', 0)]"
      "''/home/u''" "''log.txt''" "[]"]
  from inst m run
  have "copied (pre_processsing demo_lib demo_listing ''/home/u'' ''in'' ''out'' ''log.txt'')
     = copy_valid_files (accepted_set
         [(''in/a.jpg'', 0), (''in/b.JPG'', 6), (''in/notes.txt'', 3), (''in/other.jpg'', 0)]) ''out''"
    by blast
  then have p: "copied (pre_processsing demo_lib demo_listing ''/home/u'' ''in'' ''out'' ''log.txt'')
     = copy_valid_files [(''in/a.jpg'', 0), (''in/other.jpg'', 0)] ''out''"
    by (simp add: accepted_set_def)
  have "\<forall>i. i + 1 < 1000000 \<longrightarrow> length (format_06d (i + 1)) = 6"
    using inst[THEN conjunct2, THEN conjunct2, THEN conjunct1] .
  then have "41 + 1 < (1000000::nat) \<longrightarrow> length (format_06d (41 + 1)) = 6"
    by (rule spec)
  then have "length (format_06d (41 + 1)) = 6" by simp
  with m run c p show ?thesis by simp
qed

text \<open>
  C4, as the claim states it, fails: a directory that holds the files \<open>README\<close> and \<open>a.jpg\<close>
  is scanned to \<open>a.jpg\<close> alone; a name without a dot is not enumerated.
\<close>

theorem scan_counterexample:
  "walk [File ''README'', File ''a.jpg''] = [([], ''README''), ([], ''a.jpg'')]
   \<and> get_files [File ''README'', File ''a.jpg''] ''in'' = [''in/a.jpg'']"
  by (simp add: path_eval)

text \<open>
  C4, amended. For an \<open>input_dir\<close> without the wildcard characters \<open>*\<close>, \<open>?\<close> and \<open>[\<close>, the scan
  enumerates, at every depth, the entries whose name contains a dot and does not begin
  with a dot and that lie below no directory whose name begins with a dot, and nothing
  else; the result is sorted, the order of strings being lexicographic, and a run of
  \<open>check_files\<close> that returns has classified each enumerated path once, in that order.
\<close>

theorem scan_enumerates_dotted_names:
  assumes "\<not> has_magic input_dir"
  shows "get_files listing input_dir
     = sort (map (entry_path (scan_root input_dir)) (filter visible (walk listing)))
   \<and> sorted (get_files listing input_dir)
   \<and> (check_files e (get_files listing input_dir) out = Inr checked \<longrightarrow>
         map fst checked = get_files listing input_dir)"
proof (intro conjI impI)
  show "get_files listing input_dir
     = sort (map (entry_path (scan_root input_dir)) (filter visible (walk listing)))"
    by (rule get_files_walk)
  show "sorted (get_files listing input_dir)"
    by (simp add: get_files_def)
  show "map fst checked = get_files listing input_dir"
    if "check_files e (get_files listing input_dir) out = Inr checked"
    using check_files_fst(1)[OF that] .
qed

theorem scan_enumerates_dotted_names_witness:
  "\<not> has_magic ''in''
   \<and> map (entry_path (scan_root ''in'')) (filter visible (walk demo_tree))
     = [''in/b.jpg'', ''in/sub/c.jpeg'', ''in/d.v1'']
   \<and> get_files demo_tree ''in'' = [''in/b.jpg'', ''in/d.v1'', ''in/sub/c.jpeg'']
   \<and> check_files demo_lib (get_files demo_tree ''in'') ''out''
       = Inr [(''in/b.jpg'', 3), (''in/d.v1'', 3), (''in/sub/c.jpeg'', 3)]"
proof -
  have m: "\<not> has_magic ''in''"
    by (simp add: has_magic_def)
  have w: "map (entry_path (scan_root ''in'')) (filter visible (walk demo_tree))
     = [''in/b.jpg'', ''in/sub/c.jpeg'', ''in/d.v1'']"
    by (simp add: demo_tree_def visible_def entry_path_def scan_root_def path_eval)
  have s: "sort [''in/b.jpg'', ''in/sub/c.jpeg'', ''in/d.v1'']
             = [''in/b.jpg'', ''in/d.v1'', ''in/sub/c.jpeg'']"
    by (simp add: less_eq_char_def less_char_def)
  have g: "get_files demo_tree ''in'' = [''in/b.jpg'', ''in/d.v1'', ''in/sub/c.jpeg'']"
    using scan_enumerates_dotted_names[OF m, of demo_tree demo_lib "''out''"]
    by (simp only: w s)
  have c: "check_files demo_lib [''in/b.jpg'', ''in/d.v1'', ''in/sub/c.jpeg''] ''out''
       = Inr [(''in/b.jpg'', 3), (''in/d.v1'', 3), (''in/sub/c.jpeg'', 3)]"
    by (simp add: demo_eval)
  from m w g c show ?thesis by simp
qed

text \<open>
  C10. When \<open>input_dir\<close> is a relative path and some file is rejected, the run ends in
  \<open>ValueError\<close> with nothing written to the log: the scanned paths are relative like
  \<open>input_dir\<close>, and \<open>relative_to\<close> is asked for them against the absolute
  \<open>os.path.abspath(input_dir)\<close>. With a relative \<open>input_dir\<close> the run returns only when no
  file is rejected.
\<close>

theorem relative_input_dir_fails:
  assumes "\<not> os_path_isabs input_dir" and "os_path_isabs cwd" and "names_ok listing"
    and "check_files e (get_files listing input_dir) output_dir = Inr checked"
  shows "(list_ex (\<lambda>c. snd c \<noteq> 0) checked \<longrightarrow>
            returned (pre_processsing e listing cwd input_dir output_dir logfile) = Inl ValueError
          \<and> logged (pre_processsing e listing cwd input_dir output_dir logfile) = Some [])
       \<and> (\<not> list_ex (\<lambda>c. snd c \<noteq> 0) checked \<longrightarrow>
            returned (pre_processsing e listing cwd input_dir output_dir logfile)
              = Inr (length checked))"
proof (intro conjI impI)
  let ?invalid = "filter (\<lambda>c. snd c \<noteq> 0) checked"
  have run: "pre_processsing e listing cwd input_dir output_dir logfile =
      (let (text, raised) = write_log_file cwd logfile ?invalid input_dir
       in \<lparr>copied = copy_valid_files (filter (\<lambda>c. snd c = 0) checked) output_dir,
           logged = Some text,
           returned = (case raised of Some x \<Rightarrow> Inl x
                       | None \<Rightarrow> Inr (length (filter (\<lambda>c. snd c = 0) checked)))\<rparr>)"
    using assms(4) by (simp add: pre_processsing_def Let_def separate_files_filter)
  {
    assume "list_ex (\<lambda>c. snd c \<noteq> 0) checked"
    then have ne: "?invalid \<noteq> []"
      by (auto simp: list_ex_iff filter_empty_conv)
    then have "hd ?invalid \<in> set ?invalid" by (rule hd_in_set)
    then have "fst (hd ?invalid) \<in> set (map fst checked)" by auto
    then have "fst (hd ?invalid) \<in> set (get_files listing input_dir)"
      using check_files_fst(1)[OF assms(4)] by simp
    then have "\<not> os_path_isabs (fst (hd ?invalid))"
      using get_files_relative[OF assms(3) assms(1)] by blast
    from write_log_file_raises[OF ne this assms(1) assms(2), of logfile]
    have w: "write_log_file cwd logfile ?invalid input_dir = ([], Some ValueError)" .
    show "returned (pre_processsing e listing cwd input_dir output_dir logfile) = Inl ValueError"
      by (simp add: run w)
    show "logged (pre_processsing e listing cwd input_dir output_dir logfile) = Some []"
      by (simp add: run w)
  }
  {
    assume "\<not> list_ex (\<lambda>c. snd c \<noteq> 0) checked"
    then have all: "\<forall>c\<in>set checked. snd c = 0" by (auto simp: list_ex_iff)
    then have "?invalid = []" "filter (\<lambda>c. snd c = 0) checked = checked"
      by (auto simp: filter_empty_conv filter_id_conv)
    then show "returned (pre_processsing e listing cwd input_dir output_dir logfile)
              = Inr (length checked)"
      by (simp add: run write_log_file_def)
  }
qed

theorem relative_input_dir_fails_witness:
  "\<not> os_path_isabs ''in'' \<and> os_path_isabs ''/home/u'' \<and> names_ok demo_listing
   \<and> check_files demo_lib (get_files demo_listing ''in'') ''out''
       = Inr [(''in/a.jpg'', 0), (''in/b.JPG'', 6), (''in/notes.txt'', 3), (''in/other.jpg'', 0)]
   \<and> returned (pre_processsing demo_lib demo_listing ''/home/u'' ''in'' ''out'' ''log.txt'')
       = Inl ValueError
   \<and> logged (pre_processsing demo_lib demo_listing ''/home/u'' ''in'' ''out'' ''log.txt'')
       = Some []
   \<and> names_ok [File ''other.jpg'', File ''a.jpg'']
   \<and> check_files demo_lib (get_files [File ''other.jpg'', File ''a.jpg''] ''in'') ''out''
       = Inr [(''in/a.jpg'', 0), (''in/other.jpg'', 0)]
   \<and> returned (pre_processsing demo_lib [File ''other.jpg'', File ''a.jpg''] ''/home/u'' ''in''
                 ''out'' ''log.txt'') = Inr 2"
proof -
  have rel: "\<not> os_path_isabs ''in''" and cwd: "os_path_isabs ''/home/u''"
    by (simp_all add: os_path_isabs_def startswith_def)
  have ok: "names_ok demo_listing"
    by (simp add: demo_listing_def)
  have run: "check_files demo_lib (get_files demo_listing ''in'') ''out''
       = Inr [(''in/a.jpg'', 0), (''in/b.JPG'', 6), (''in/notes.txt'', 3), (''in/other.jpg'', 0)]"
    by (simp only: demo_scan demo_checked)
  have ok2: "names_ok [File ''other.jpg'', File ''a.jpg'']"
    by simp
  have scan2: "get_files [File ''other.jpg'', File ''a.jpg''] ''in'' = [''in/a.jpg'', ''in/other.jpg'']"
    by (simp add: path_eval)
  have run2: "check_files demo_lib (get_files [File ''other.jpg'', File ''a.jpg''] ''in'') ''out''
       = Inr [(''in/a.jpg'', 0), (''in/other.jpg'', 0)]"
    unfolding scan2 by (simp add: demo_eval)
  from relative_input_dir_fails[OF rel cwd ok run, of "''log.txt''"]
  have a: "returned (pre_processsing demo_lib demo_listing ''/home/u'' ''in'' ''out'' ''log.txt'')
       = Inl ValueError"
    "logged (pre_processsing demo_lib demo_listing ''/home/u'' ''in'' ''out'' ''log.txt'')
       = Some []"
    by simp_all
  from relative_input_dir_fails[OF rel cwd ok2 run2, of "''log.txt''"]
  have b: "returned (pre_processsing demo_lib [File ''other.jpg'', File ''a.jpg''] ''/home/u'' ''in''
                 ''out'' ''log.txt'') = Inr 2"
    by simp
  from rel cwd ok run ok2 run2 a b show ?thesis by blast
qed

end
